theory Spec2Isabelle
  imports Main "HOL-Library.Option_ord" "HOL-Library.Product_Lexorder" "HOL-Library.Char_ord"
begin

section \<open>The edge classes\<close>

text \<open>
  \<^verbatim>\<open>gdwg_graph.h\<close> declares an abstract class \<^verbatim>\<open>edge<N, E>\<close> with the protected fields
  \<^verbatim>\<open>from_\<close> and \<^verbatim>\<open>to_\<close> and two concrete subclasses: \<^verbatim>\<open>unweighted_edge\<close>, and
  \<^verbatim>\<open>weighted_edge\<close> with the extra field \<^verbatim>\<open>weight_\<close>. The hierarchy is a datatype with
  one constructor per concrete class. Node values and weights are any types with
  equality and a strict total order (\<^verbatim>\<open>operator==\<close>, \<^verbatim>\<open>operator<\<close>).
\<close>

datatype ('n, 'e) edge =
    unweighted_edge (edge_from : 'n) (edge_to : 'n)
  | weighted_edge (edge_from : 'n) (edge_to : 'n) (edge_weight : 'e)

fun is_weighted :: "('n, 'e) edge \<Rightarrow> bool" where
  "is_weighted (unweighted_edge _ _) = False"
| "is_weighted (weighted_edge _ _ _) = True"

fun get_weight :: "('n, 'e) edge \<Rightarrow> 'e option" where
  "get_weight (unweighted_edge _ _) = None"
| "get_weight (weighted_edge _ _ w) = Some w"

fun get_nodes :: "('n, 'e) edge \<Rightarrow> 'n \<times> 'n" where
  "get_nodes e = (edge_from e, edge_to e)"

text \<open>The assignments \<^verbatim>\<open>edge->from_ = v\<close> and \<^verbatim>\<open>edge->to_ = v\<close> of the friend class graph.\<close>

fun set_from :: "'n \<Rightarrow> ('n, 'e) edge \<Rightarrow> ('n, 'e) edge" where
  "set_from v (unweighted_edge _ t) = unweighted_edge v t"
| "set_from v (weighted_edge _ t w) = weighted_edge v t w"

fun set_to :: "'n \<Rightarrow> ('n, 'e) edge \<Rightarrow> ('n, 'e) edge" where
  "set_to v (unweighted_edge f _) = unweighted_edge f v"
| "set_to v (weighted_edge f _ w) = weighted_edge f v w"

section \<open>The adjacency list\<close>

text \<open>
  The only data member of \<^verbatim>\<open>graph<N, E>\<close> is
  \<^verbatim>\<open>std::map<N, std::vector<std::unique_ptr<edge<N, E>>>> adjacency_list_\<close>. A
  \<^verbatim>\<open>std::map\<close> is traversed in ascending key order, so it is modelled by the list of
  its entries in that order; every edge is owned by exactly one vector, so the vector of
  pointers is the list of the edges.
\<close>

type_synonym ('n, 'e) edge_list = "('n, 'e) edge list"

type_synonym ('n, 'e) adjacency_list = "('n \<times> ('n, 'e) edge_list) list"

text \<open>\<^verbatim>\<open>map::emplace(k, v)\<close>: the entry is put at its place in key order, unless the key is
  there already.\<close>

fun map_emplace :: "'n::linorder \<Rightarrow> 'v \<Rightarrow> ('n \<times> 'v) list \<Rightarrow> ('n \<times> 'v) list" where
  "map_emplace k v [] = [(k, v)]"
| "map_emplace k v ((k', v') # m) =
     (if k < k' then (k, v) # (k', v') # m
      else if k = k' then (k', v') # m
      else (k', v') # map_emplace k v m)"

text \<open>\<^verbatim>\<open>map::erase(k)\<close>.\<close>

fun map_erase :: "'n \<Rightarrow> ('n \<times> 'v) list \<Rightarrow> ('n \<times> 'v) list" where
  "map_erase k m = filter (\<lambda>kv. fst kv \<noteq> k) m"

text \<open>Reading \<^verbatim>\<open>adjacency_list_[k]\<close> or \<^verbatim>\<open>adjacency_list_.at(k)\<close>. Every call in the
  source comes after a check that \<^verbatim>\<open>k\<close> is a key; for a key that is absent the
  model reads the empty vector that \<^verbatim>\<open>operator[]\<close> would create.\<close>

fun map_at :: "('n \<times> 'v list) list \<Rightarrow> 'n \<Rightarrow> 'v list" where
  "map_at m k = (case map_of m k of Some es \<Rightarrow> es | None \<Rightarrow> [])"

text \<open>Writing through the reference \<^verbatim>\<open>adjacency_list_[k]\<close> of a key that is present.\<close>

fun map_assign :: "'n \<Rightarrow> 'v \<Rightarrow> ('n \<times> 'v) list \<Rightarrow> ('n \<times> 'v) list" where
  "map_assign k v m = map (\<lambda>kv. if fst kv = k then (fst kv, v) else kv) m"

text \<open>\<^verbatim>\<open>map::find(k)\<close> as a position: the number of entries before the entry of \<^verbatim>\<open>k\<close>,
  the number of all entries (the position of \<^verbatim>\<open>end()\<close>) when there is none.\<close>

fun map_find :: "('n \<times> 'v) list \<Rightarrow> 'n \<Rightarrow> nat" where
  "map_find m k = length (takeWhile (\<lambda>kv. fst kv \<noteq> k) m)"

datatype error = NodeNotFound | InvalidRange

section \<open>Private helpers of the graph\<close>

fun find_edge :: "('n, 'e) edge_list \<Rightarrow> 'n \<Rightarrow> 'e option \<Rightarrow> ('n, 'e) edge option" where
  "find_edge edges dst weight =
     find (\<lambda>e. edge_to e = dst \<and>
               ((is_weighted e \<and> get_weight e = weight) \<or> (\<not> is_weighted e \<and> weight = None)))
          edges"

fun edge_exists :: "('n, 'e) edge_list \<Rightarrow> 'n \<Rightarrow> 'e option \<Rightarrow> bool" where
  "edge_exists edges dst weight = (find_edge edges dst weight \<noteq> None)"

fun create_edge :: "'n \<Rightarrow> 'n \<Rightarrow> 'e option \<Rightarrow> ('n, 'e) edge" where
  "create_edge src dst (Some w) = weighted_edge src dst w"
| "create_edge src dst None = unweighted_edge src dst"

text \<open>The comparator that \<^verbatim>\<open>sort_edges\<close> hands to \<^verbatim>\<open>std::sort\<close>.\<close>

fun edge_less :: "('n::linorder, 'e::linorder) edge \<Rightarrow> ('n, 'e) edge \<Rightarrow> bool" where
  "edge_less a b =
     (if edge_to a \<noteq> edge_to b then edge_to a < edge_to b
      else if is_weighted a \<noteq> is_weighted b then is_weighted a < is_weighted b
      else if is_weighted a
           then (case (get_weight a, get_weight b) of
                   (Some x, Some y) \<Rightarrow> x < y
                 | _ \<Rightarrow> False)
           else False)"

text \<open>
  \<^verbatim>\<open>std::sort\<close> is modelled by insertion sort with the source's comparator. Two edges
  that the comparator does not order have the same destination and the same weight, so
  whatever order \<^verbatim>\<open>std::sort\<close> leaves them in is the same sequence of destinations and
  weights; the model keeps such edges in the order they had.
\<close>

fun insort_edge :: "('n::linorder, 'e::linorder) edge \<Rightarrow> ('n, 'e) edge_list \<Rightarrow> ('n, 'e) edge_list" where
  "insort_edge x [] = [x]"
| "insort_edge x (y # ys) = (if edge_less y x then y # insort_edge x ys else x # y # ys)"

fun sort_edges :: "('n::linorder, 'e::linorder) edge_list \<Rightarrow> ('n, 'e) edge_list" where
  "sort_edges edges = foldr insort_edge edges []"

section \<open>Accessors\<close>

fun is_node :: "('n, 'e) adjacency_list \<Rightarrow> 'n \<Rightarrow> bool" where
  "is_node g v = (map_of g v \<noteq> None)"

fun graph_empty :: "('n, 'e) adjacency_list \<Rightarrow> bool" where
  "graph_empty g = (g = [])"

fun nodes :: "('n, 'e) adjacency_list \<Rightarrow> 'n list" where
  "nodes g = map fst g"

text \<open>\<^verbatim>\<open>edges\<close> re-creates each edge it returns from the fields of the stored one.\<close>

fun copy_edge :: "('n, 'e) edge \<Rightarrow> ('n, 'e) edge" where
  "copy_edge (weighted_edge f t w) = weighted_edge f t w"
| "copy_edge (unweighted_edge f t) = unweighted_edge f t"

fun edges :: "('n, 'e) adjacency_list \<Rightarrow> 'n \<Rightarrow> 'n \<Rightarrow> error + ('n, 'e) edge_list" where
  "edges g src dst =
     (if \<not> is_node g src \<or> \<not> is_node g dst then Inl NodeNotFound
      else Inr (map copy_edge (filter (\<lambda>e. edge_to e = dst) (map_at g src))))"

fun is_connected :: "('n, 'e) adjacency_list \<Rightarrow> 'n \<Rightarrow> 'n \<Rightarrow> error + bool" where
  "is_connected g src dst =
     (if \<not> is_node g src \<or> \<not> is_node g dst then Inl NodeNotFound
      else (case edges g src dst of
              Inl e \<Rightarrow> Inl e
            | Inr edges_between \<Rightarrow> Inr (edges_between \<noteq> [])))"

fun connections :: "('n, 'e) adjacency_list \<Rightarrow> 'n \<Rightarrow> error + 'n list" where
  "connections g src =
     (if \<not> is_node g src then Inl NodeNotFound
      else if \<not> map_find g src < length g then Inr []
      else Inr (map edge_to (map_at g src)))"

section \<open>Modifiers\<close>

text \<open>
  A modifier takes the adjacency list and returns what it returns in the source together
  with the adjacency list it leaves behind; a \<^verbatim>\<open>throw std::runtime_error\<close> is the
  value \<open>Inl\<close> of the error, paired with the adjacency list at the moment of the throw.
\<close>

fun insert_node :: "('n::linorder, 'e) adjacency_list \<Rightarrow> 'n \<Rightarrow> bool \<times> ('n, 'e) adjacency_list" where
  "insert_node g v =
     (if is_node g v then (False, g)
      else (True, map_emplace v [] g))"

fun insert_edge ::
  "('n::linorder, 'e::linorder) adjacency_list \<Rightarrow> 'n \<Rightarrow> 'n \<Rightarrow> 'e option
    \<Rightarrow> (error + bool) \<times> ('n, 'e) adjacency_list" where
  "insert_edge g src dst weight =
     (if \<not> is_node g src \<or> \<not> is_node g dst then (Inl NodeNotFound, g)
      else if edge_exists (map_at g src) dst weight then (Inr False, g)
      else (Inr True,
            map_assign src (sort_edges (map_at g src @ [create_edge src dst weight])) g))"

text \<open>The two lambdas of \<^verbatim>\<open>replace_node\<close>.\<close>

fun replace_outgoing_edges ::
  "('n, 'e) adjacency_list \<Rightarrow> 'n \<Rightarrow> 'n \<Rightarrow> ('n, 'e) adjacency_list" where
  "replace_outgoing_edges g old_data new_data =
     (if is_node g old_data
      then map_assign new_data
             (map_at g new_data @
              map (\<lambda>e. create_edge new_data (edge_to e) (get_weight e)) (map_at g old_data)) g
      else g)"

fun rename_edge :: "'n \<Rightarrow> 'n \<Rightarrow> ('n, 'e) edge \<Rightarrow> ('n, 'e) edge" where
  "rename_edge old_data new_data e =
     (let e1 = (if edge_from e = old_data then set_from new_data e else e)
      in if edge_to e1 = old_data then set_to new_data e1 else e1)"

fun replace_incoming_edges ::
  "('n, 'e) adjacency_list \<Rightarrow> 'n \<Rightarrow> 'n \<Rightarrow> ('n, 'e) adjacency_list" where
  "replace_incoming_edges g old_data new_data =
     map (\<lambda>kv. (fst kv, map (rename_edge old_data new_data) (snd kv))) g"

fun replace_node ::
  "('n::linorder, 'e::linorder) adjacency_list \<Rightarrow> 'n \<Rightarrow> 'n
    \<Rightarrow> (error + bool) \<times> ('n, 'e) adjacency_list" where
  "replace_node g old_data new_data =
     (if \<not> is_node g old_data then (Inl NodeNotFound, g)
      else if is_node g new_data then (Inr False, g)
      else
        let g1 = map_emplace new_data [] g;
            g2 = replace_outgoing_edges g1 old_data new_data;
            g3 = replace_incoming_edges g2 old_data new_data;
            g4 = map_erase old_data g3;
            g5 = map_assign new_data (sort_edges (map_at g4 new_data)) g4
        in (Inr True, g5))"

text \<open>
  \<^verbatim>\<open>merge_replace_node\<close>. Its first loop walks \<^verbatim>\<open>old_edges\<close> and appends to
  \<^verbatim>\<open>new_edges\<close>, each test \<^verbatim>\<open>edge_exists(new_edges, ...)\<close> seeing the edges appended so
  far. When \<^verbatim>\<open>old_data == new_data\<close> both names denote one vector; every edge of it
  exists in it, so nothing is appended and the walk is over the vector as it was.
\<close>

fun add_new_edges ::
  "'n \<Rightarrow> ('n, 'e) edge_list \<Rightarrow> ('n, 'e) edge_list \<Rightarrow> ('n, 'e) edge_list" where
  "add_new_edges new_data [] new_edges = new_edges"
| "add_new_edges new_data (e # old_edges) new_edges =
     add_new_edges new_data old_edges
       (if \<not> edge_exists new_edges (edge_to e) (get_weight e)
        then new_edges @ [create_edge new_data (edge_to e) (get_weight e)]
        else new_edges)"

fun sync_edge :: "'n \<Rightarrow> 'n \<Rightarrow> ('n, 'e) edge \<Rightarrow> ('n, 'e) edge" where
  "sync_edge old_data new_data e = (if edge_to e = old_data then set_to new_data e else e)"

text \<open>\<^verbatim>\<open>std::unique\<close> with the lambda of \<^verbatim>\<open>merge_replace_node\<close>, followed by the
  \<^verbatim>\<open>erase\<close> of the tail: of every run of neighbours with the same destination and
  weight the first one stays.\<close>

fun same_dst_weight :: "('n, 'e) edge \<Rightarrow> ('n, 'e) edge \<Rightarrow> bool" where
  "same_dst_weight a b = (edge_to a = edge_to b \<and> get_weight a = get_weight b)"

fun unique_edges :: "('n, 'e) edge_list \<Rightarrow> ('n, 'e) edge_list" where
  "unique_edges [] = []"
| "unique_edges [x] = [x]"
| "unique_edges (x # y # xs) =
     (if same_dst_weight x y then unique_edges (x # xs) else x # unique_edges (y # xs))"

fun merge_replace_node ::
  "('n::linorder, 'e::linorder) adjacency_list \<Rightarrow> 'n \<Rightarrow> 'n
    \<Rightarrow> (error + unit) \<times> ('n, 'e) adjacency_list" where
  "merge_replace_node g old_data new_data =
     (if \<not> is_node g old_data \<or> \<not> is_node g new_data then (Inl NodeNotFound, g)
      else
        let g1 = map_assign new_data
                   (add_new_edges new_data (map_at g old_data) (map_at g new_data)) g;
            g2 = map (\<lambda>kv. (fst kv, map (sync_edge old_data new_data) (snd kv))) g1;
            g3 = map_assign new_data (unique_edges (sort_edges (map_at g2 new_data))) g2;
            g4 = map_erase old_data g3
        in (Inr (), g4))"

fun erase_node :: "('n, 'e) adjacency_list \<Rightarrow> 'n \<Rightarrow> bool \<times> ('n, 'e) adjacency_list" where
  "erase_node g v =
     (if \<not> is_node g v then (False, g)
      else (True,
            map_erase v (map (\<lambda>kv. (fst kv, filter (\<lambda>e. \<not> edge_to e = v) (snd kv))) g)))"

text \<open>
  \<^verbatim>\<open>erase_edge(src, dst, weight)\<close>: \<^verbatim>\<open>std::remove_if\<close> moves the edges that the lambda
  rejects to the front, in order, and returns where they end; that is \<^verbatim>\<open>end()\<close> exactly
  when the lambda holds of no edge.
\<close>

fun erase_edge ::
  "('n, 'e) adjacency_list \<Rightarrow> 'n \<Rightarrow> 'n \<Rightarrow> 'e option \<Rightarrow> (error + bool) \<times> ('n, 'e) adjacency_list" where
  "erase_edge g src dst weight =
     (if \<not> is_node g src \<or> \<not> is_node g dst then (Inl NodeNotFound, g)
      else
        let edges_from_src = map_at g src;
            kept = filter (\<lambda>e. \<not> (edge_to e = dst \<and>
                            ((is_weighted e \<and> get_weight e = weight) \<or> \<not> is_weighted e)))
                     edges_from_src
        in if length kept = length edges_from_src then (Inr False, g)
           else (Inr True, map_assign src kept g))"

fun clear :: "('n, 'e) adjacency_list \<Rightarrow> ('n, 'e) adjacency_list" where
  "clear g = []"

section \<open>The iterator\<close>

text \<open>
  \<^verbatim>\<open>graph::iterator\<close> holds a map iterator \<^verbatim>\<open>node_it_\<close>, the map's \<^verbatim>\<open>end()\<close> as
  \<^verbatim>\<open>node_end_\<close>, and a vector iterator \<^verbatim>\<open>edge_it_\<close>. In the model \<open>node_it\<close> is the
  position of the entry in key order, \<open>edge_it\<close> the position in that entry's vector.
  \<^verbatim>\<open>node_end_\<close> is the same for every iterator of a graph, the number of its entries,
  and is read off the adjacency list: \<^verbatim>\<open>node_it_ != node_end_\<close> is
  \<open>node_it it < length g\<close>. No modifier that takes an iterator adds or removes an entry,
  and \<^verbatim>\<open>vector::erase\<close> never reallocates, so a position means after such a call what
  the source's pointers mean.

  A read through an iterator outside its container (\<^verbatim>\<open>*it\<close> or \<^verbatim>\<open>index()\<close> at
  \<^verbatim>\<open>end()\<close>, \<^verbatim>\<open>erase\<close> of a position that holds no edge) has no defined behaviour
  in C++; the functions that read return \<open>None\<close> there.
\<close>

record iterator =
  node_it :: nat
  edge_it :: nat

text \<open>The loop shared by the constructor and \<^verbatim>\<open>operator++\<close>: while the edge
  position is the end of the current entry's vector, go to the next entry.\<close>

function skip_empty :: "('n, 'e) adjacency_list \<Rightarrow> iterator \<Rightarrow> iterator" where
  "skip_empty g it =
     (if node_it it < length g \<and> edge_it it = length (snd (g ! node_it it))
      then skip_empty g
             (if Suc (node_it it) < length g
              then \<lparr>node_it = Suc (node_it it), edge_it = 0\<rparr>
              else it\<lparr>node_it := Suc (node_it it)\<rparr>)
      else it)"
  by pat_completeness auto
termination
  by (relation "measure (\<lambda>(g, it). length g - node_it it)") auto

declare skip_empty.simps [simp del]

text \<open>The constructor \<^verbatim>\<open>iterator(node_it, node_end)\<close>. When \<^verbatim>\<open>node_it == node_end\<close>
  it leaves \<^verbatim>\<open>edge_it_\<close> value-initialised; no comparison and no read through the
  iterator looks at that field of an iterator at \<^verbatim>\<open>end()\<close>, and the model writes 0.\<close>

fun iterator_ctor :: "('n, 'e) adjacency_list \<Rightarrow> nat \<Rightarrow> iterator" where
  "iterator_ctor g n =
     (if n < length g then skip_empty g \<lparr>node_it = n, edge_it = 0\<rparr>
      else \<lparr>node_it = n, edge_it = 0\<rparr>)"

fun graph_begin :: "('n, 'e) adjacency_list \<Rightarrow> iterator" where
  "graph_begin g = iterator_ctor g 0"

fun graph_end :: "('n, 'e) adjacency_list \<Rightarrow> iterator" where
  "graph_end g = iterator_ctor g (length g)"

text \<open>\<^verbatim>\<open>iterator::operator==\<close>, \<^verbatim>\<open>operator++\<close>, \<^verbatim>\<open>operator*\<close> and \<^verbatim>\<open>index()\<close>.\<close>

fun iterator_eq :: "('n, 'e) adjacency_list \<Rightarrow> iterator \<Rightarrow> iterator \<Rightarrow> bool" where
  "iterator_eq g a b =
     (node_it a = node_it b \<and> (\<not> node_it a < length g \<or> edge_it a = edge_it b))"

fun iterator_incr :: "('n, 'e) adjacency_list \<Rightarrow> iterator \<Rightarrow> iterator" where
  "iterator_incr g it = skip_empty g (it\<lparr>edge_it := Suc (edge_it it)\<rparr>)"

fun dereferenceable :: "('n, 'e) adjacency_list \<Rightarrow> iterator \<Rightarrow> bool" where
  "dereferenceable g it =
     (node_it it < length g \<and> edge_it it < length (snd (g ! node_it it)))"

fun iterator_deref ::
  "('n, 'e) adjacency_list \<Rightarrow> iterator \<Rightarrow> ('n \<times> 'n \<times> 'e option) option" where
  "iterator_deref g it =
     (if dereferenceable g it
      then Some (fst (g ! node_it it),
                 edge_to (snd (g ! node_it it) ! edge_it it),
                 get_weight (snd (g ! node_it it) ! edge_it it))
      else None)"

fun iterator_index :: "('n, 'e) adjacency_list \<Rightarrow> iterator \<Rightarrow> nat option" where
  "iterator_index g it = (if node_it it < length g then Some (edge_it it) else None)"

section \<open>Finding an edge\<close>

fun graph_find :: "('n, 'e) adjacency_list \<Rightarrow> 'n \<Rightarrow> 'n \<Rightarrow> 'e option \<Rightarrow> iterator" where
  "graph_find g src dst weight =
     (if \<not> is_node g src \<or> \<not> is_node g dst then graph_end g
      else
        let n = map_find g src in
        if \<not> n < length g then graph_end g
        else
          let edges_list = snd (g ! n);
              e = length (takeWhile
                    (\<lambda>e. \<not> (edge_to e = dst \<and> get_weight e = weight)) edges_list)
          in if e = length edges_list then graph_end g
             else (iterator_ctor g n)\<lparr>edge_it := e\<rparr>)"

section \<open>Comparing two graphs\<close>

lemma skip_empty_stay:
  "\<not> (node_it it < length g \<and> edge_it it = length (snd (g ! node_it it)))
    \<Longrightarrow> skip_empty g it = it"
  by (simp add: skip_empty.simps)

lemma skip_empty_node_ge: "node_it it \<le> node_it (skip_empty g it)"
proof (induction g it rule: skip_empty.induct)
  case (1 g it)
  show ?case
  proof (cases "node_it it < length g \<and> edge_it it = length (snd (g ! node_it it))")
    case True
    then show ?thesis
      using "1.IH" by (subst skip_empty.simps) (auto split: if_splits)
  next
    case False
    then show ?thesis by (simp add: skip_empty_stay)
  qed
qed

lemma skip_empty_node_gt:
  assumes "node_it it < length g" "edge_it it = length (snd (g ! node_it it))"
  shows "node_it it < node_it (skip_empty g it)"
proof -
  let ?it' = "(if Suc (node_it it) < length g
              then \<lparr>node_it = Suc (node_it it), edge_it = 0\<rparr>
              else it\<lparr>node_it := Suc (node_it it)\<rparr>)"
  have "skip_empty g it = skip_empty g ?it'"
    using assms by (subst skip_empty.simps) simp
  moreover have "Suc (node_it it) \<le> node_it (skip_empty g ?it')"
    using skip_empty_node_ge [of ?it' g] by (simp split: if_splits)
  ultimately show ?thesis by simp
qed

text \<open>
  The loop of \<^verbatim>\<open>graph::operator==\<close>: both iterators walk their graphs in step, each
  pair of values is compared by \<^verbatim>\<open>from\<close>, \<^verbatim>\<open>to\<close> and \<^verbatim>\<open>weight\<close>. (\<open>None\<close> would be a
  read outside the container; the loop reads only where the iterator is not
  \<^verbatim>\<open>end()\<close>.)
\<close>

function eq_loop ::
  "('n, 'e) adjacency_list \<Rightarrow> ('n, 'e) adjacency_list \<Rightarrow> iterator \<Rightarrow> iterator \<Rightarrow> bool option" where
  "eq_loop g1 g2 it1 it2 =
     (if \<not> iterator_eq g1 it1 (graph_end g1) \<and> \<not> iterator_eq g2 it2 (graph_end g2)
      then (case (iterator_deref g1 it1, iterator_deref g2 it2) of
              (Some edge1, Some edge2) \<Rightarrow>
                if fst edge1 \<noteq> fst edge2 \<or> fst (snd edge1) \<noteq> fst (snd edge2)
                   \<or> snd (snd edge1) \<noteq> snd (snd edge2)
                then Some False
                else eq_loop g1 g2 (iterator_incr g1 it1) (iterator_incr g2 it2)
            | _ \<Rightarrow> None)
      else Some (iterator_eq g1 it1 (graph_end g1) \<and> iterator_eq g2 it2 (graph_end g2)))"
  by pat_completeness auto
termination
proof (relation "measures [\<lambda>(g1, g2, it1, it2). length g1 - node_it it1,
                           \<lambda>(g1, g2, it1, it2). length (snd (g1 ! node_it it1)) - edge_it it1]",
       goal_cases)
  case 1
  show ?case by simp
next
  case (2 g1 g2 it1 it2 x y edge1 edge2)
  from 2 have d: "node_it it1 < length g1" "edge_it it1 < length (snd (g1 ! node_it it1))"
    by (auto split: if_splits)
  show ?case
  proof (cases "Suc (edge_it it1) = length (snd (g1 ! node_it it1))")
    case True
    then have "node_it it1 < node_it (skip_empty g1 (it1\<lparr>edge_it := Suc (edge_it it1)\<rparr>))"
      using skip_empty_node_gt [of "it1\<lparr>edge_it := Suc (edge_it it1)\<rparr>" g1] d by simp
    then have "length g1 - node_it (skip_empty g1 (it1\<lparr>edge_it := Suc (edge_it it1)\<rparr>))
                 < length g1 - node_it it1"
      using d by linarith
    then show ?thesis by simp
  next
    case False
    then have "skip_empty g1 (it1\<lparr>edge_it := Suc (edge_it it1)\<rparr>)
                 = it1\<lparr>edge_it := Suc (edge_it it1)\<rparr>"
      by (simp add: skip_empty_stay)
    then show ?thesis using d False by simp
  qed
qed

declare eq_loop.simps [simp del]

fun graph_eq :: "('n, 'e) adjacency_list \<Rightarrow> ('n, 'e) adjacency_list \<Rightarrow> bool option" where
  "graph_eq g other =
     (if length g \<noteq> length other then Some False
      else eq_loop g other (graph_begin g) (graph_begin other))"

section \<open>Erasing through iterators\<close>

text \<open>\<^verbatim>\<open>vector::erase(pos)\<close>.\<close>

fun erase_at :: "nat \<Rightarrow> 'a list \<Rightarrow> 'a list" where
  "erase_at i xs = take i xs @ drop (Suc i) xs"

text \<open>The loop at the end of \<^verbatim>\<open>erase_edge(iterator)\<close>:
  \<^verbatim>\<open>while (index > 0 and new_it != end()) { ++new_it; --index; }\<close>.\<close>

fun advance :: "('n, 'e) adjacency_list \<Rightarrow> iterator \<Rightarrow> nat \<Rightarrow> iterator" where
  "advance g new_it 0 = new_it"
| "advance g new_it (Suc index) =
     (if \<not> iterator_eq g new_it (graph_end g) then advance g (iterator_incr g new_it) index
      else new_it)"

text \<open>
  \<^verbatim>\<open>erase_edge(iterator i)\<close>. \<^verbatim>\<open>adjacency_list_.at(i.node_it_->first)\<close> is the vector
  of the entry that \<^verbatim>\<open>node_it_\<close> points to, the keys of a map being unique. The test
  \<^verbatim>\<open>next == edges_from_src.end()\<close> compares the erased position with the length the
  vector has after the erasure.
\<close>

fun erase_edge_it ::
  "('n, 'e) adjacency_list \<Rightarrow> iterator \<Rightarrow> (iterator \<times> ('n, 'e) adjacency_list) option" where
  "erase_edge_it g i =
     (if iterator_eq g i (graph_end g) then Some (graph_end g, g)
      else if \<not> dereferenceable g i then None
      else
        let edges_from_src = erase_at (edge_it i) (snd (g ! node_it i));
            g' = g[node_it i := (fst (g ! node_it i), edges_from_src)];
            index = edge_it i
        in if edge_it i = length edges_from_src then Some (graph_end g', g')
           else Some (advance g' (graph_begin g') index, g'))"

fun edge_count :: "('n, 'e) adjacency_list \<Rightarrow> nat" where
  "edge_count g = sum_list (map (\<lambda>kv. length (snd kv)) g)"

lemma erase_edge_it_count:
  assumes "\<not> iterator_eq g i (graph_end g)" "erase_edge_it g i = Some (i', g')"
  shows "edge_count g' < edge_count g"
proof -
  let ?es = "snd (g ! node_it i)"
  let ?f = "\<lambda>kv. length (snd kv)"
  from assms have d: "node_it i < length g" "edge_it i < length ?es"
    and g': "g' = g[node_it i := (fst (g ! node_it i), erase_at (edge_it i) ?es)]"
    by (auto simp: Let_def split: if_splits)
  have "sum_list ((map ?f g)[node_it i := length (erase_at (edge_it i) ?es)])
        = sum_list (map ?f g) + length (erase_at (edge_it i) ?es) - (map ?f g) ! node_it i"
    using d by (simp add: sum_list_update)
  moreover have "length (erase_at (edge_it i) ?es) < length ?es"
    using d by simp
  moreover have "length ?es \<le> sum_list (map ?f g)"
    using d by (metis (no_types, lifting) elem_le_sum_list length_map nth_map)
  ultimately show ?thesis
    using d by (simp add: g' map_update)
qed

text \<open>
  \<^verbatim>\<open>erase_edge(iterator i, iterator s)\<close>: the loop
  \<^verbatim>\<open>while (i != end() and i != s) { i = erase_edge(i); ++i; }\<close>, which ends because
  every turn erases an edge, and the function around it.
\<close>

function erase_loop ::
  "('n, 'e) adjacency_list \<Rightarrow> iterator \<Rightarrow> iterator \<Rightarrow> ('n, 'e) adjacency_list option" where
  "erase_loop g i s =
     (if \<not> iterator_eq g i (graph_end g) \<and> \<not> iterator_eq g i s
      then (case erase_edge_it g i of
              None \<Rightarrow> None
            | Some (i', g') \<Rightarrow> erase_loop g' (iterator_incr g' i') s)
      else Some g)"
  by pat_completeness auto
termination
proof (relation "measure (\<lambda>(g, i, s). edge_count g)", goal_cases)
  case 1
  show ?case by simp
next
  case (2 g i s x2 i' g')
  then show ?case
    using erase_edge_it_count [of g i i' g'] by simp
qed

declare erase_loop.simps [simp del]

fun erase_edge_range ::
  "('n, 'e) adjacency_list \<Rightarrow> iterator \<Rightarrow> iterator
    \<Rightarrow> ((error + iterator) \<times> ('n, 'e) adjacency_list) option" where
  "erase_edge_range g i s =
     (if iterator_eq g i s \<and> iterator_eq g i (graph_end g) then Some (Inr s, g)
      else (case (iterator_index g i, iterator_index g s) of
              (Some a, Some b) \<Rightarrow>
                if a > b then Some (Inl InvalidRange, g)
                else (case erase_loop g i s of
                        None \<Rightarrow> None
                      | Some g' \<Rightarrow> Some (Inr s, g'))
            | _ \<Rightarrow> None))"

section \<open>Building graphs\<close>

text \<open>The range constructor \<^verbatim>\<open>graph(InputIt first, InputIt last)\<close>, which the
  initializer-list constructor delegates to, and a run of \<^verbatim>\<open>insert_edge\<close> calls as
  the tests make them.\<close>

fun graph_of_list :: "'n::linorder list \<Rightarrow> ('n, 'e) adjacency_list" where
  "graph_of_list il = fold (\<lambda>v g. snd (insert_node g v)) il []"

fun insert_edges ::
  "('n::linorder, 'e::linorder) adjacency_list \<Rightarrow> ('n \<times> 'n \<times> 'e option) list
    \<Rightarrow> ('n, 'e) adjacency_list" where
  "insert_edges g [] = g"
| "insert_edges g ((src, dst, weight) # es) = insert_edges (snd (insert_edge g src dst weight)) es"

section \<open>The canonical order\<close>

text \<open>
  The canonical order of a node's outgoing edges: by destination ascending; for one
  destination the unweighted edge first, then the weighted edges by weight ascending. This
  is the lexicographic order of the pairs of destination and optional weight, where
  \<open>None\<close> is below every \<open>Some w\<close>.
\<close>

fun edge_key :: "('n, 'e) edge \<Rightarrow> 'n \<times> 'e option" where
  "edge_key e = (edge_to e, get_weight e)"

fun canonical :: "('n::linorder, 'e::linorder) edge_list \<Rightarrow> bool" where
  "canonical es = sorted (map edge_key es)"

fun all_canonical :: "('n::linorder, 'e::linorder) adjacency_list \<Rightarrow> bool" where
  "all_canonical g = list_all (\<lambda>kv. canonical (snd kv)) g"

section \<open>The merge as the specification describes it\<close>

text \<open>
  The specification describes \<^verbatim>\<open>merge_replace_node(old, new)\<close> in four steps, written
  here after its words and independently of the source. (1) Every outgoing edge of
  \<^verbatim>\<open>old\<close> is added to the list of \<^verbatim>\<open>new\<close> unless an edge with the same destination
  and weight is there already. (2) Every edge of the graph with the destination
  \<^verbatim>\<open>old\<close> is rewritten to the destination \<^verbatim>\<open>new\<close>. (3) The list of \<^verbatim>\<open>new\<close> is
  sorted into canonical order and deduplicated by destination and weight, the first
  occurrence staying. (4) \<^verbatim>\<open>old\<close> is removed.
\<close>

fun dedup_first :: "('n, 'e) edge_list \<Rightarrow> ('n, 'e) edge_list" where
  "dedup_first [] = []"
| "dedup_first (x # xs) = x # dedup_first (filter (\<lambda>y. edge_key y \<noteq> edge_key x) xs)"

fun retarget :: "'n \<Rightarrow> 'n \<Rightarrow> ('n, 'e) edge \<Rightarrow> ('n, 'e) edge" where
  "retarget old_data new_data (unweighted_edge f t) =
     unweighted_edge f (if t = old_data then new_data else t)"
| "retarget old_data new_data (weighted_edge f t w) =
     weighted_edge f (if t = old_data then new_data else t) w"

fun merge_replace_node_spec ::
  "('n::linorder, 'e::linorder) adjacency_list \<Rightarrow> 'n \<Rightarrow> 'n \<Rightarrow> ('n, 'e) adjacency_list" where
  "merge_replace_node_spec g old_data new_data =
     (let added = filter (\<lambda>e. edge_key e \<notin> set (map edge_key (map_at g new_data)))
                    (map (\<lambda>e. create_edge new_data (edge_to e) (get_weight e))
                       (map_at g old_data));
          s1 = map_assign new_data (map_at g new_data @ added) g;
          s2 = map (\<lambda>kv. (fst kv, map (retarget old_data new_data) (snd kv))) s1;
          s3 = map_assign new_data (dedup_first (sort_key edge_key (map_at s2 new_data))) s2
      in map_erase old_data s3)"

section \<open>Graphs used as inputs\<close>

text \<open>Each is built as a caller builds it: the nodes through the constructor, the
  edges through \<^verbatim>\<open>insert_edge\<close>.\<close>

definition isolated_a :: "(nat, nat) adjacency_list" where
  "isolated_a = graph_of_list [1, 2]"

definition isolated_b :: "(nat, nat) adjacency_list" where
  "isolated_b = graph_of_list [1, 3]"

definition fan_in :: "(nat, nat) adjacency_list" where
  "fan_in = insert_edges (graph_of_list [1, 2, 3, 4]) [(3, 1, Some 7), (3, 2, Some 7)]"

definition two_sources :: "(nat, nat) adjacency_list" where
  "two_sources = insert_edges (graph_of_list [1, 2]) [(1, 1, None), (1, 2, None), (2, 1, None)]"

definition chain :: "(nat, nat) adjacency_list" where
  "chain = insert_edges (graph_of_list [1, 2]) [(1, 2, Some 7), (2, 1, Some 9)]"

definition later_source :: "(nat, nat) adjacency_list" where
  "later_source = insert_edges (graph_of_list [1, 2]) [(1, 1, None), (2, 1, None), (2, 2, None)]"

definition four_edges :: "(nat, nat) adjacency_list" where
  "four_edges =
     insert_edges (graph_of_list [1, 2]) [(1, 1, None), (1, 2, None), (2, 1, None), (2, 2, None)]"

definition both_kinds :: "(nat, nat) adjacency_list" where
  "both_kinds = insert_edges (graph_of_list [1, 2]) [(1, 2, None), (1, 2, Some 5)]"

text \<open>
  \<^verbatim>\<open>merge_replace_node(v, v)\<close> passes both existence checks, appends nothing and then
  erases \<^verbatim>\<open>v\<close>, while the edges that other nodes have to \<^verbatim>\<open>v\<close> stay: here node 3
  keeps its edge to 1 after 1 has gone.
\<close>

definition dangling :: "(nat, nat) adjacency_list" where
  "dangling =
     snd (merge_replace_node
            (insert_edges (graph_of_list [1, 2, 3]) [(3, 1, Some 1), (3, 2, Some 1)]) 1 1)"

text \<open>Two edges are observably equal when \<^verbatim>\<open>edge::operator==\<close> holds of them: the
  same nodes, the same kind, the same weight. A graph has no duplicates when no vector
  holds two such edges.\<close>

fun no_duplicates :: "('n, 'e) adjacency_list \<Rightarrow> bool" where
  "no_duplicates g = list_all (\<lambda>kv. distinct (snd kv)) g"

text \<open>The scenario of the specification: the nodes A, B, C and the edges from A to B
  of weight 1, from A to C of weight 2 and from B to C of weight 3.\<close>

definition abc :: "(char, int) adjacency_list" where
  "abc = insert_edges (graph_of_list [CHR ''A'', CHR ''B'', CHR ''C''])
           [(CHR ''A'', CHR ''B'', Some 1), (CHR ''A'', CHR ''C'', Some 2),
            (CHR ''B'', CHR ''C'', Some 3)]"

section \<open>Properties\<close>

lemma sort_edges_length: "length (sort_edges es) = length es"
proof -
  have ins: "length (insort_edge x ys) = Suc (length ys)" for x :: "('a, 'b) edge" and ys
    by (induction ys) auto
  show ?thesis by (induction es) (auto simp: ins)
qed


lemma edge_less_iff_key: "edge_less a b \<longleftrightarrow> edge_key a < edge_key b"
  by (cases a; cases b) (auto simp: less_prod_def)


subsection \<open>Graph equality\<close>

text \<open>
  Claim C1 says that \<^verbatim>\<open>operator==\<close> holds exactly of two graphs with the same nodes
  and, node by node, the same edge sequences, so that two graphs differing in a node
  without outgoing edges are unequal. The source compares the number of nodes and then
  the two flattened edge iterations only: the graph with the nodes 1, 2 and the graph with
  the nodes 1, 3, neither with an edge, compare equal.
\<close>

theorem graph_eq_differing_isolated_node:
  "nodes isolated_a = [1, 2] \<and> nodes isolated_b = [1, 3]
   \<and> graph_eq isolated_a isolated_b = Some True"
  by code_simp

subsection \<open>Canonical order after a rename\<close>

text \<open>
  Claim C2 says that after every operation every node's list is in canonical order,
  also the lists whose destinations \<^verbatim>\<open>replace_node\<close> or \<^verbatim>\<open>merge_replace_node\<close>
  rewrote. Both sort only the list of \<^verbatim>\<open>new_data\<close>. Node 3 holds the edges to 1 and
  to 2, in canonical order; renaming 1 to 5, or merging 1 into 4, leaves node 3 with the
  larger destination first.
\<close>

theorem replace_node_leaves_list_unsorted:
  "fan_in = [(1, []), (2, []), (3, [weighted_edge 3 1 7, weighted_edge 3 2 7]), (4, [])]
   \<and> all_canonical fan_in
   \<and> replace_node fan_in 1 5
       = (Inr True, [(2, []), (3, [weighted_edge 3 5 7, weighted_edge 3 2 7]), (4, []), (5, [])])
   \<and> \<not> all_canonical (snd (replace_node fan_in 1 5))
   \<and> merge_replace_node fan_in 1 4
       = (Inr (), [(2, []), (3, [weighted_edge 3 4 7, weighted_edge 3 2 7]), (4, [])])
   \<and> \<not> all_canonical (snd (merge_replace_node fan_in 1 4))"
  by code_simp

subsection \<open>Erasing a range\<close>

text \<open>
  Claim C3 says that \<^verbatim>\<open>erase_edge(i, j)\<close> erases every edge of the range from \<open>i\<close>
  up to \<open>j\<close> and no other. The loop assigns \<^verbatim>\<open>i = erase_edge(i)\<close>, which is already
  the next position, and then increments \<^verbatim>\<open>i\<close> once more. With the edges 1 to 1,
  1 to 2 and 2 to 1, \<open>i\<close> at the first and \<open>j\<close> at the third, the range holds the first
  two edges; the call erases the first and leaves the edge from 1 to 2 in the graph.
\<close>

theorem erase_edge_range_skips_an_edge:
  "two_sources = [(1, [unweighted_edge 1 1, unweighted_edge 1 2]), (2, [unweighted_edge 2 1])]
   \<and> iterator_deref two_sources (graph_begin two_sources) = Some (1, 1, None)
   \<and> iterator_deref two_sources (iterator_incr two_sources (graph_begin two_sources))
       = Some (1, 2, None)
   \<and> iterator_incr two_sources (iterator_incr two_sources (graph_begin two_sources))
       = graph_find two_sources 2 1 None
   \<and> erase_edge_range two_sources (graph_begin two_sources) (graph_find two_sources 2 1 None)
       = Some (Inr (graph_find two_sources 2 1 None),
               [(1, [unweighted_edge 1 2]), (2, [unweighted_edge 2 1])])"
  by code_simp

subsection \<open>Erasing at one iterator\<close>

text \<open>
  Claim C4 says that \<^verbatim>\<open>erase_edge(i)\<close> returns the next position of the flattened
  order, which may be the first edge of a later node. The source returns \<^verbatim>\<open>end()\<close>
  whenever the erased edge was the last of its node: with the edges 1 to 2 and 2 to 1,
  erasing the first returns \<^verbatim>\<open>end()\<close> although the edge from 2 to 1 follows. Otherwise
  it walks \<^verbatim>\<open>index()\<close> steps from \<^verbatim>\<open>begin()\<close>, where \<^verbatim>\<open>index()\<close> counts within the
  node's own vector: with the edges 1 to 1, 2 to 1 and 2 to 2, erasing the edge from 2 to 1
  returns \<^verbatim>\<open>begin()\<close>, the edge from 1 to 1, and not the edge from 2 to 2.
\<close>

theorem erase_edge_it_returns_wrong_position:
  "chain = [(1, [weighted_edge 1 2 7]), (2, [weighted_edge 2 1 9])]
   \<and> iterator_deref chain (graph_begin chain) = Some (1, 2, Some 7)
   \<and> iterator_deref chain (iterator_incr chain (graph_begin chain)) = Some (2, 1, Some 9)
   \<and> erase_edge_it chain (graph_begin chain)
       = Some (graph_end chain, [(1, []), (2, [weighted_edge 2 1 9])])
   \<and> later_source = [(1, [unweighted_edge 1 1]), (2, [unweighted_edge 2 1, unweighted_edge 2 2])]
   \<and> iterator_deref later_source (graph_find later_source 2 1 None) = Some (2, 1, None)
   \<and> erase_edge_it later_source (graph_find later_source 2 1 None)
       = Some (graph_begin later_source, [(1, [unweighted_edge 1 1]), (2, [unweighted_edge 2 2])])
   \<and> iterator_deref [(1, [unweighted_edge 1 1]), (2, [unweighted_edge 2 2])]
        (graph_begin later_source) = Some (1 :: nat, 1 :: nat, None :: nat option)"
  by code_simp

subsection \<open>Erasing an edge by value\<close>

text \<open>
  Claim C5 says that \<^verbatim>\<open>erase_edge(src, dst, weight)\<close> removes only the edge whose
  weight is the argument and leaves an unweighted edge alone when a weight is given. The
  lambda of the source accepts every unweighted edge to \<^verbatim>\<open>dst\<close> whatever the argument
  (the lambda of \<^verbatim>\<open>find_edge\<close> has the test \<^verbatim>\<open>!weight\<close> that this one lacks): asked for
  the edge of weight 5, the call removes the unweighted edge as well, and it removes it
  and returns true when there is no edge of weight 5 at all.
\<close>

theorem erase_edge_removes_unweighted_edge:
  "both_kinds = [(1, [unweighted_edge 1 2, weighted_edge 1 2 5]), (2, [])]
   \<and> erase_edge both_kinds 1 2 (Some 5) = (Inr True, [(1, []), (2, [])])
   \<and> erase_edge [(1, [unweighted_edge 1 2]), (2, [])] 1 2 (Some 5)
       = (Inr True, [(1, []), (2, [])] :: (nat, nat) adjacency_list)"
  by code_simp

subsection \<open>The range check\<close>

text \<open>
  Claim C7 says that \<^verbatim>\<open>erase_edge(i, j)\<close> raises exactly when \<open>i\<close> is after \<open>j\<close> in
  the flattened order. The source compares \<^verbatim>\<open>i.index() > s.index()\<close>, the positions
  within the two nodes' own vectors. With the edges 1 to 1, 1 to 2 and 2 to 1: from the
  second edge to the third, an ascending range, the call raises. With the edges 1 to 1,
  1 to 2, 2 to 1 and 2 to 2: from the third edge back to the second the call raises
  nothing and erases the third edge.
\<close>

theorem erase_edge_range_compares_indices:
  "iterator_deref two_sources (graph_find two_sources 1 2 None) = Some (1, 2, None)
   \<and> iterator_incr two_sources (graph_find two_sources 1 2 None) = graph_find two_sources 2 1 None
   \<and> erase_edge_range two_sources (graph_find two_sources 1 2 None) (graph_find two_sources 2 1 None)
       = Some (Inl InvalidRange, two_sources)
   \<and> four_edges = [(1, [unweighted_edge 1 1, unweighted_edge 1 2]),
                    (2, [unweighted_edge 2 1, unweighted_edge 2 2])]
   \<and> iterator_incr four_edges (graph_find four_edges 1 2 None) = graph_find four_edges 2 1 None
   \<and> erase_edge_range four_edges (graph_find four_edges 2 1 None) (graph_find four_edges 1 2 None)
       = Some (Inr (graph_find four_edges 1 2 None),
               [(1, [unweighted_edge 1 1, unweighted_edge 1 2]), (2, [unweighted_edge 2 2])])"
  by code_simp

subsection \<open>Finding an edge of an absent node\<close>

text \<open>
  Claim C10: when \<^verbatim>\<open>src\<close> or \<^verbatim>\<open>dst\<close> is not a node, \<^verbatim>\<open>find(src, dst, weight)\<close>
  returns \<^verbatim>\<open>end()\<close>. It raises nothing and, a \<^verbatim>\<open>const\<close> member function, leaves the
  graph as it is: in the model \<open>graph_find\<close> returns an iterator, never an error, and no
  adjacency list.
\<close>

theorem graph_find_absent_node:
  "\<not> is_node g src \<or> \<not> is_node g dst \<Longrightarrow> graph_find g src dst weight = graph_end g"
  by (simp del: graph_end.simps)

theorem graph_find_absent_node_witness:
  "\<not> is_node isolated_a 5 \<and> graph_find isolated_a 5 1 (Some 3) = graph_end isolated_a
   \<and> \<not> is_node isolated_a 3 \<and> graph_find isolated_a 1 3 None = graph_end isolated_a"
proof -
  have a: "\<not> is_node isolated_a 5" and b: "\<not> is_node isolated_a 3"
    by code_simp+
  show ?thesis
    using a b graph_find_absent_node [of isolated_a 5 1 "Some 3"]
      graph_find_absent_node [of isolated_a 1 3 None]
    by blast
qed

subsection \<open>Renaming without deduplication\<close>

lemma replace_node_dangling:
  "dangling = [(2, []), (3, [weighted_edge 3 1 1, weighted_edge 3 2 1])]
   \<and> no_duplicates dangling
   \<and> replace_node dangling 2 1
      = (Inr True, [(1, []), (3, [weighted_edge 3 1 1, weighted_edge 3 1 1])])"
  by code_simp

text \<open>
  Claim C8: there are a graph and nodes \<^verbatim>\<open>old\<close>, \<^verbatim>\<open>new\<close> for which
  \<^verbatim>\<open>replace_node(old, new)\<close> returns true and leaves a vector with two equal edges.
  The graph is built through the public operations alone and has no duplicates before
  the call: node 3 has an edge to 2 and an edge of the same weight to the value 1, which
  is no longer a node; renaming 2 to 1 rewrites the first into a copy of the second.
\<close>

theorem replace_node_can_duplicate:
  "\<exists>(g :: (nat, nat) adjacency_list) old_data new_data g' src e.
     g = dangling \<and> no_duplicates g
     \<and> replace_node g old_data new_data = (Inr True, g')
     \<and> map_of g' src = Some [e, e]"
proof -
  have "dangling = dangling \<and> no_duplicates dangling
     \<and> replace_node dangling 2 1
        = (Inr True, [(1, []), (3, [weighted_edge 3 1 1, weighted_edge 3 1 1])])
     \<and> map_of [(1, []), (3, [weighted_edge 3 1 1, weighted_edge 3 1 1])] (3::nat)
         = Some [weighted_edge 3 1 1, weighted_edge 3 1 (1::nat)]"
    using replace_node_dangling by simp
  then show ?thesis by blast
qed

subsection \<open>Errors leave the graph as it was\<close>

text \<open>
  Claim C9: an operation that raises leaves the graph in the state it had before the
  call. Every modifier that can raise is covered: \<^verbatim>\<open>insert_edge\<close>,
  \<^verbatim>\<open>replace_node\<close>, \<^verbatim>\<open>merge_replace_node\<close> and \<^verbatim>\<open>erase_edge\<close> by value
  (\<open>NodeNotFound\<close>), and the two-iterator \<^verbatim>\<open>erase_edge\<close> (\<open>InvalidRange\<close>). The
  other operations that raise, \<^verbatim>\<open>is_connected\<close>, \<^verbatim>\<open>edges\<close> and \<^verbatim>\<open>connections\<close>, are
  \<^verbatim>\<open>const\<close> member functions, functions of the adjacency list that return no new one.
\<close>

theorem error_leaves_graph_unchanged:
  "(fst (insert_edge g src dst weight) = Inl e \<longrightarrow> snd (insert_edge g src dst weight) = g)
   \<and> (fst (replace_node g old_data new_data) = Inl e
        \<longrightarrow> snd (replace_node g old_data new_data) = g)
   \<and> (fst (merge_replace_node g old_data new_data) = Inl e
        \<longrightarrow> snd (merge_replace_node g old_data new_data) = g)
   \<and> (fst (erase_edge g src dst weight) = Inl e \<longrightarrow> snd (erase_edge g src dst weight) = g)
   \<and> (erase_edge_range g i s = Some (Inl e, g') \<longrightarrow> g' = g)"
proof (intro conjI impI)
  assume "fst (insert_edge g src dst weight) = Inl e"
  then show "snd (insert_edge g src dst weight) = g"
    by (auto split: if_splits)
next
  assume "fst (replace_node g old_data new_data) = Inl e"
  then show "snd (replace_node g old_data new_data) = g"
    by (auto simp: Let_def split: if_splits)
next
  assume "fst (merge_replace_node g old_data new_data) = Inl e"
  then show "snd (merge_replace_node g old_data new_data) = g"
    by (auto simp: Let_def split: if_splits)
next
  assume "fst (erase_edge g src dst weight) = Inl e"
  then show "snd (erase_edge g src dst weight) = g"
    by (auto simp: Let_def split: if_splits)
next
  assume "erase_edge_range g i s = Some (Inl e, g')"
  then show "g' = g"
    by (simp split: if_splits option.splits)
qed

theorem error_leaves_graph_unchanged_witness:
  "fst (insert_edge isolated_a 1 5 None) = Inl NodeNotFound
   \<and> snd (insert_edge isolated_a 1 5 None) = isolated_a
   \<and> fst (replace_node isolated_a 7 8) = Inl NodeNotFound
   \<and> snd (replace_node isolated_a 7 8) = isolated_a
   \<and> fst (merge_replace_node isolated_a 1 9) = Inl NodeNotFound
   \<and> snd (merge_replace_node isolated_a 1 9) = isolated_a
   \<and> fst (erase_edge isolated_a 9 1 (Some 4)) = Inl NodeNotFound
   \<and> snd (erase_edge isolated_a 9 1 (Some 4)) = isolated_a
   \<and> erase_edge_range two_sources (graph_find two_sources 1 2 None)
        (graph_find two_sources 2 1 None) = Some (Inl InvalidRange, two_sources)"
proof -
  have h1: "fst (insert_edge isolated_a 1 5 None) = Inl NodeNotFound"
    and h2: "fst (replace_node isolated_a 7 8) = Inl NodeNotFound"
    and h3: "fst (merge_replace_node isolated_a 1 9) = Inl NodeNotFound"
    and h4: "fst (erase_edge isolated_a 9 1 (Some 4)) = Inl NodeNotFound"
    by code_simp+
  have h5: "erase_edge_range two_sources (graph_find two_sources 1 2 None)
        (graph_find two_sources 2 1 None) = Some (Inl InvalidRange, two_sources)"
    by code_simp
  have "two_sources = two_sources"
    using h5 error_leaves_graph_unchanged
      [of two_sources 1 1 None InvalidRange 1 1 "graph_find two_sources 1 2 None"
          "graph_find two_sources 2 1 None" two_sources]
    by blast
  then show ?thesis
    using h1 h2 h3 h4 h5
      error_leaves_graph_unchanged [of isolated_a 1 5 None NodeNotFound 7 8]
      error_leaves_graph_unchanged [of isolated_a 9 1 "Some 4" NodeNotFound 1 9]
    by blast
qed

subsection \<open>Merging a node into another\<close>

text \<open>From here on the definitions are used through the lemmas about them.\<close>

declare edge_key.simps [simp del] edge_less.simps [simp del] sort_edges.simps [simp del]
  same_dst_weight.simps [simp del]

lemma insort_edge_eq: "insort_edge x ys = insort_key edge_key x ys"
proof (induction ys)
  case Nil
  show ?case by simp
next
  case (Cons y ys)
  have "edge_less y x \<longleftrightarrow> \<not> edge_key x \<le> edge_key y"
    by (simp add: edge_less_iff_key not_le)
  then show ?case using Cons by simp
qed

lemma sort_edges_eq: "sort_edges xs = sort_key edge_key xs"
  by (induction xs) (simp_all add: sort_edges.simps insort_edge_eq)

lemma same_dst_weight_iff: "same_dst_weight a b \<longleftrightarrow> edge_key a = edge_key b"
  by (simp add: same_dst_weight.simps edge_key.simps)

lemma dedup_first_subset: "set (dedup_first xs) \<subseteq> set xs"
  by (induction xs rule: dedup_first.induct) auto

lemma unique_edges_sorted:
  "sorted (map edge_key xs) \<Longrightarrow> unique_edges xs = dedup_first xs"
proof (induction xs rule: unique_edges.induct)
  case 1
  show ?case by simp
next
  case (2 x)
  show ?case by simp
next
  case (3 x y xs)
  show ?case
  proof (cases "edge_key x = edge_key y")
    case True
    have "sorted (map edge_key (x # xs))"
      using "3.prems" by simp
    then have "unique_edges (x # xs) = dedup_first (x # xs)"
      using 3 True by (simp add: same_dst_weight_iff)
    then show ?thesis using True by (simp add: same_dst_weight_iff)
  next
    case False
    have le: "\<forall>z \<in> set (y # xs). edge_key x \<le> edge_key z"
      using "3.prems" by auto
    have "edge_key x < edge_key y"
      using le False by (simp add: less_le)
    moreover have "\<forall>z \<in> set xs. edge_key y \<le> edge_key z"
      using "3.prems" by auto
    ultimately have "\<forall>z \<in> set (y # xs). edge_key z \<noteq> edge_key x"
      by auto
    then have f: "filter (\<lambda>z. edge_key z \<noteq> edge_key x) (y # xs) = y # xs"
      by (simp only: filter_id_conv)
    have "sorted (map edge_key (y # xs))"
      using "3.prems" by simp
    then have "unique_edges (y # xs) = dedup_first (y # xs)"
      using 3 False by (simp add: same_dst_weight_iff)
    then show ?thesis
      using False f by (simp del: dedup_first.simps(2) add: dedup_first.simps(2) [of x] same_dst_weight_iff)
  qed
qed

lemma dedup_first_sorted:
  "sorted (map edge_key xs) \<Longrightarrow> sorted (map edge_key (dedup_first xs))"
proof (induction xs rule: dedup_first.induct)
  case 1
  show ?case by simp
next
  case (2 x xs)
  let ?ys = "filter (\<lambda>y. edge_key y \<noteq> edge_key x) xs"
  have "sorted (map edge_key ?ys)"
    using "2.prems" by (simp add: sorted_filter)
  then have "sorted (map edge_key (dedup_first ?ys))"
    using 2 by simp
  moreover have "\<forall>z \<in> set (dedup_first ?ys). edge_key x \<le> edge_key z"
    using "2.prems" dedup_first_subset [of ?ys] by auto
  ultimately show ?case by simp
qed

lemma dedup_first_distinct: "distinct (map edge_key (dedup_first xs))"
proof (induction xs rule: dedup_first.induct)
  case 1
  show ?case by simp
next
  case (2 x xs)
  let ?ys = "filter (\<lambda>y. edge_key y \<noteq> edge_key x) xs"
  have "edge_key x \<notin> edge_key ` set (dedup_first ?ys)"
  proof
    assume "edge_key x \<in> edge_key ` set (dedup_first ?ys)"
    then obtain z where z: "z \<in> set (dedup_first ?ys)" "edge_key x = edge_key z"
      by (rule imageE)
    from z(1) have "z \<in> set ?ys"
      using dedup_first_subset [of ?ys] by blast
    then have "edge_key z \<noteq> edge_key x"
      by simp
    then show False using z(2) by simp
  qed
  then show ?case using 2 by simp
qed

lemma find_filter_implied:
  "(\<And>x. x \<in> set xs \<Longrightarrow> P x \<Longrightarrow> Q x) \<Longrightarrow> find P (filter Q xs) = find P xs"
  by (induction xs) auto

lemma find_Some_in_set: "find P xs = Some x \<Longrightarrow> x \<in> set xs \<and> P x"
  by (induction xs) (auto split: if_splits)

lemma dedup_first_set:
  "set (dedup_first xs) = {x. find (\<lambda>y. edge_key y = edge_key x) xs = Some x}"
proof (induction xs rule: dedup_first.induct)
  case 1
  show ?case by simp
next
  case (2 x xs)
  let ?ys = "filter (\<lambda>y. edge_key y \<noteq> edge_key x) xs"
  have "z \<in> set (dedup_first (x # xs))
        \<longleftrightarrow> find (\<lambda>y. edge_key y = edge_key z) (x # xs) = Some z" for z
  proof (cases "edge_key z = edge_key x")
    case True
    have "find (\<lambda>y. edge_key y = edge_key z) ?ys \<noteq> Some z"
      using find_Some_in_set [of "\<lambda>y. edge_key y = edge_key z" ?ys z] True by auto
    then show ?thesis using True 2 by auto
  next
    case False
    have "find (\<lambda>y. edge_key y = edge_key z) ?ys = find (\<lambda>y. edge_key y = edge_key z) xs"
      using False by (intro find_filter_implied) auto
    then show ?thesis using False 2 by auto
  qed
  then show ?case by blast
qed

lemma find_as_filter: "find P xs = (case filter P xs of [] \<Rightarrow> None | y # _ \<Rightarrow> Some y)"
  by (induction xs) auto

lemma find_sort_key: "find (\<lambda>y. f y = c) (sort_key f xs) = find (\<lambda>y. f y = c) xs"
  by (simp add: find_as_filter sort_key_stable)

lemma find_map_comp: "find P (map f xs) = map_option f (find (\<lambda>x. P (f x)) xs)"
  by (induction xs) auto

lemma find_append: "find P (xs @ ys) = (case find P xs of None \<Rightarrow> find P ys | Some x \<Rightarrow> Some x)"
  by (induction xs) auto

lemma sorted_distinct_key_unique:
  assumes "sorted (map f xs)" "distinct (map f xs)" "sorted (map f ys)" "distinct (map f ys)"
    "set xs = set ys"
  shows "xs = ys"
proof -
  have "map f xs = map f ys"
    using assms by (intro sorted_distinct_set_unique) auto
  moreover have "inj_on f (set xs \<union> set ys)"
    using assms by (simp add: distinct_map)
  ultimately show ?thesis by (simp add: inj_on_map_eq_map)
qed


lemma edge_key_create_edge: "edge_key (create_edge src dst weight) = (dst, weight)"
  by (cases weight) (simp_all add: edge_key.simps)

lemma edge_exists_iff: "edge_exists es dst weight \<longleftrightarrow> (dst, weight) \<in> edge_key ` set es"
proof -
  have "(edge_to e = dst \<and>
          ((is_weighted e \<and> get_weight e = weight) \<or> (\<not> is_weighted e \<and> weight = None)))
        \<longleftrightarrow> edge_key e = (dst, weight)" for e :: "('a, 'b) edge"
    by (cases e) (auto simp: edge_key.simps)
  then show ?thesis
    by (simp add: find_None_iff image_iff) metis
qed


lemma find_filter_agree:
  "(\<And>x. x \<in> set xs \<Longrightarrow> P x \<Longrightarrow> Q1 x = Q2 x)
    \<Longrightarrow> find P (filter Q1 xs) = find P (filter Q2 xs)"
  by (induction xs) auto

lemma find_add_new_edges:
  assumes resp: "\<And>a b :: ('n, 'e) edge. edge_key a = edge_key b \<Longrightarrow> P a = P b"
  shows "find P (add_new_edges new_data old_edges new_edges)
         = find P (new_edges @
             filter (\<lambda>e. edge_key e \<notin> edge_key ` set new_edges)
               (map (\<lambda>e. create_edge new_data (edge_to e) (get_weight e)) old_edges))"
proof (induction old_edges arbitrary: new_edges)
  case Nil
  show ?case by simp
next
  case (Cons e old_edges)
  let ?mk = "\<lambda>e :: ('n, 'e) edge. create_edge new_data (edge_to e) (get_weight e)"
  let ?M = "map ?mk old_edges"
  have key: "edge_key (?mk e) = edge_key e"
    by (simp add: edge_key_create_edge) (simp add: edge_key.simps)
  have ex: "edge_exists new_edges (edge_to e) (get_weight e)
            \<longleftrightarrow> edge_key e \<in> edge_key ` set new_edges"
    by (simp add: edge_exists_iff del: edge_exists.simps) (simp add: edge_key.simps)
  show ?case
  proof (cases "edge_key e \<in> edge_key ` set new_edges")
    case True
    then show ?thesis
      using Cons [of new_edges] ex key by (simp del: edge_exists.simps)
  next
    case False
    have rec: "add_new_edges new_data (e # old_edges) new_edges
               = add_new_edges new_data old_edges (new_edges @ [?mk e])"
      using False ex by (simp del: edge_exists.simps)
    have "find P (filter (\<lambda>x. edge_key x \<notin> edge_key ` set (new_edges @ [?mk e])) ?M)
          = find P (filter (\<lambda>x. edge_key x \<notin> edge_key ` set new_edges) ?M)"
      if "\<not> P (?mk e)"
    proof (rule find_filter_agree)
      fix x assume "P x"
      then have "edge_key x \<noteq> edge_key (?mk e)"
        using that resp [of x "?mk e"] by blast
      then show "(edge_key x \<notin> edge_key ` set (new_edges @ [?mk e]))
                 = (edge_key x \<notin> edge_key ` set new_edges)"
        by auto
    qed
    then show ?thesis
      using Cons [of "new_edges @ [?mk e]"] False key
      by (simp only: rec) (simp add: find_append split: option.splits)
  qed
qed

lemma sync_edge_retarget: "sync_edge old_data new_data e = retarget old_data new_data e"
  by (cases e) simp_all

lemma edge_key_retarget:
  "edge_key (retarget old_data new_data e)
   = (if fst (edge_key e) = old_data then new_data else fst (edge_key e), snd (edge_key e))"
  by (cases e) (simp_all add: edge_key.simps)


lemma is_node_map_assign: "is_node (map_assign k v m) k' = is_node m k'"
  by (induction m) auto

lemma is_node_map_lists: "is_node (map (\<lambda>kv. (fst kv, h (snd kv))) m) k = is_node m k"
  by (induction m) auto

lemma map_at_map_assign: "is_node m k \<Longrightarrow> map_at (map_assign k v m) k = v"
  by (induction m) (auto split: if_splits)

lemma map_at_map_lists:
  "is_node m k \<Longrightarrow> map_at (map (\<lambda>kv. (fst kv, h (snd kv))) m) k = h (map_at m k)"
  by (induction m) (auto split: if_splits)

lemma map_assign_twice: "map_assign k v (map_assign k w m) = map_assign k v m"
  by (induction m) auto

lemma map_lists_map_assign:
  "map (\<lambda>kv. (fst kv, h (snd kv))) (map_assign k v m)
   = map_assign k (h v) (map (\<lambda>kv. (fst kv, h (snd kv))) m)"
  by (induction m) auto

lemma is_node_map_erase: "\<not> is_node (map_erase k m) k"
  by (induction m) auto

declare map_at.simps [simp del] map_assign.simps [simp del] map_erase.simps [simp del]
  is_node.simps [simp del] edge_exists.simps [simp del]

text \<open>
  The list that the source leaves at \<^verbatim>\<open>new_data\<close> is the list of the specification.
  The source appends an edge of \<^verbatim>\<open>old_data\<close> unless its destination and weight are
  among the edges of \<^verbatim>\<open>new_data\<close> or among those appended before it, the specification
  unless they are among the edges of \<^verbatim>\<open>new_data\<close>; the two lists have, for every
  destination and weight, the same first edge, and sorting and deduplicating keeps
  exactly the first edges.
\<close>

lemma merged_list_eq:
  fixes old_edges new_edges :: "('n::linorder, 'e::linorder) edge_list"
  shows "unique_edges (sort_edges (map (sync_edge old_data new_data)
           (add_new_edges new_data old_edges new_edges)))
         = dedup_first (sort_key edge_key (map (retarget old_data new_data)
             (new_edges @
              filter (\<lambda>e. edge_key e \<notin> set (map edge_key new_edges))
                (map (\<lambda>e. create_edge new_data (edge_to e) (get_weight e)) old_edges))))"
    (is "unique_edges (sort_edges (map ?s ?C)) = dedup_first (sort_key edge_key (map ?r ?S))")
proof -
  have s_r: "?s = ?r"
    by (rule ext) (rule sync_edge_retarget)
  have code: "unique_edges (sort_edges (map ?s ?C)) = dedup_first (sort_key edge_key (map ?r ?C))"
    by (simp add: s_r sort_edges_eq unique_edges_sorted)
  have firsts: "find (\<lambda>y. edge_key y = c) (map ?r ?C) = find (\<lambda>y. edge_key y = c) (map ?r ?S)"
    for c
  proof -
    have eq: "find (\<lambda>x. edge_key (?r x) = c) ?C = find (\<lambda>x. edge_key (?r x) = c) ?S"
      unfolding set_map by (rule find_add_new_edges) (simp add: edge_key_retarget)
    show ?thesis by (simp only: find_map_comp eq)
  qed
  have "set (dedup_first (sort_key edge_key (map ?r ?C)))
        = set (dedup_first (sort_key edge_key (map ?r ?S)))"
    by (simp only: dedup_first_set find_sort_key firsts)
  then have "dedup_first (sort_key edge_key (map ?r ?C))
             = dedup_first (sort_key edge_key (map ?r ?S))"
    by (intro sorted_distinct_key_unique [of edge_key])
       (simp_all add: dedup_first_sorted dedup_first_distinct)
  then show ?thesis using code by simp
qed

lemma merge_replace_node_eq_spec:
  fixes g :: "('n::linorder, 'e::linorder) adjacency_list"
  assumes "is_node g old_data" "is_node g new_data"
  shows "merge_replace_node g old_data new_data
           = (Inr (), merge_replace_node_spec g old_data new_data)"
proof -
  let ?s = "sync_edge old_data new_data" and ?r = "retarget old_data new_data"
  let ?C = "add_new_edges new_data (map_at g old_data) (map_at g new_data)"
  let ?S = "map_at g new_data @
            filter (\<lambda>e. edge_key e \<notin> set (map edge_key (map_at g new_data)))
              (map (\<lambda>e. create_edge new_data (edge_to e) (get_weight e)) (map_at g old_data))"
  let ?g2 = "map (\<lambda>kv. (fst kv, map ?s (snd kv))) (map_assign new_data ?C g)"
  let ?s2 = "map (\<lambda>kv. (fst kv, map ?r (snd kv))) (map_assign new_data ?S g)"
  let ?base = "map (\<lambda>kv. (fst kv, map ?r (snd kv))) g"
  have s_r: "?s = ?r"
    by (rule ext) (rule sync_edge_retarget)
  have g2: "?g2 = map_assign new_data (map ?s ?C) ?base"
    by (simp only: map_lists_map_assign s_r)
  have s2: "?s2 = map_assign new_data (map ?r ?S) ?base"
    by (simp only: map_lists_map_assign)
  have node: "is_node ?base new_data"
    using assms by (simp add: is_node_map_lists)
  have at_g2: "map_at ?g2 new_data = map ?s ?C"
    using node by (simp only: g2 map_at_map_assign)
  have at_s2: "map_at ?s2 new_data = map ?r ?S"
    using node by (simp only: s2 map_at_map_assign)
  have "map_assign new_data (unique_edges (sort_edges (map_at ?g2 new_data))) ?g2
        = map_assign new_data (dedup_first (sort_key edge_key (map_at ?s2 new_data))) ?s2"
    by (simp only: at_g2 at_s2 merged_list_eq) (simp only: g2 s2 map_assign_twice)
  then show ?thesis
    using assms by (simp add: Let_def)
qed

lemma nodes_merge_replace_node_spec:
  "nodes (merge_replace_node_spec g old_data new_data) = filter (\<lambda>v. v \<noteq> old_data) (nodes g)"
proof -
  have a: "map fst (map_assign k v m) = map fst m" for k and v :: "('a, 'b) edge_list" and m
    by (induction m) (auto simp: map_assign.simps)
  have e: "map fst (map_erase k m) = filter (\<lambda>v. v \<noteq> k) (map fst m)"
    for k and m :: "('a, 'b) adjacency_list"
    by (induction m) (auto simp: map_erase.simps)
  show ?thesis
    by (simp add: Let_def a e comp_def)
qed

declare merge_replace_node.simps [simp del] merge_replace_node_spec.simps [simp del]

text \<open>
  Claim C6: for a graph that holds both \<^verbatim>\<open>old\<close> and \<^verbatim>\<open>new\<close>,
  \<^verbatim>\<open>merge_replace_node(old, new)\<close> raises nothing and leaves the state that the four
  steps of the specification describe; its nodes are the nodes before without
  \<^verbatim>\<open>old\<close>, and \<^verbatim>\<open>old\<close> is no node of it. In the scenario of the specification the
  nodes B and C remain, and B holds the edges to B of weight 1, to C of weight 2 and to C
  of weight 3, in this order.
\<close>

theorem merge_replace_node_refines_spec:
  "(is_node g old_data \<and> is_node g new_data \<longrightarrow>
      merge_replace_node g old_data new_data
        = (Inr (), merge_replace_node_spec g old_data new_data)
      \<and> nodes (snd (merge_replace_node g old_data new_data))
          = filter (\<lambda>v. v \<noteq> old_data) (nodes g)
      \<and> \<not> is_node (snd (merge_replace_node g old_data new_data)) old_data)
   \<and> merge_replace_node abc (CHR ''A'') (CHR ''B'')
       = (Inr (),
          [(CHR ''B'', [weighted_edge (CHR ''B'') (CHR ''B'') 1,
                        weighted_edge (CHR ''B'') (CHR ''C'') 2,
                        weighted_edge (CHR ''B'') (CHR ''C'') 3]),
           (CHR ''C'', [])])"
proof (intro conjI impI)
  assume n: "is_node g old_data \<and> is_node g new_data"
  then show eq: "merge_replace_node g old_data new_data
               = (Inr (), merge_replace_node_spec g old_data new_data)"
    by (simp only: merge_replace_node_eq_spec)
  show "nodes (snd (merge_replace_node g old_data new_data))
        = filter (\<lambda>v. v \<noteq> old_data) (nodes g)"
    by (simp only: eq snd_conv nodes_merge_replace_node_spec)
  show "\<not> is_node (snd (merge_replace_node g old_data new_data)) old_data"
    by (simp only: eq snd_conv) (simp add: merge_replace_node_spec.simps Let_def is_node_map_erase)
next
  show "merge_replace_node abc (CHR ''A'') (CHR ''B'')
       = (Inr (),
          [(CHR ''B'', [weighted_edge (CHR ''B'') (CHR ''B'') 1,
                        weighted_edge (CHR ''B'') (CHR ''C'') 2,
                        weighted_edge (CHR ''B'') (CHR ''C'') 3]),
           (CHR ''C'', [])])"
    by code_simp
qed

theorem merge_replace_node_refines_spec_witness:
  "is_node abc (CHR ''A'') \<and> is_node abc (CHR ''B'')
   \<and> merge_replace_node_spec abc (CHR ''A'') (CHR ''B'')
       = [(CHR ''B'', [weighted_edge (CHR ''B'') (CHR ''B'') 1,
                       weighted_edge (CHR ''B'') (CHR ''C'') 2,
                       weighted_edge (CHR ''B'') (CHR ''C'') 3]),
          (CHR ''C'', [])]
   \<and> nodes (snd (merge_replace_node abc (CHR ''A'') (CHR ''B''))) = [CHR ''B'', CHR ''C'']"
proof -
  have n: "is_node abc (CHR ''A'') \<and> is_node abc (CHR ''B'')"
    by code_simp
  have k: "filter (\<lambda>v. v \<noteq> CHR ''A'') (nodes abc) = [CHR ''B'', CHR ''C'']"
    by code_simp
  note t = merge_replace_node_refines_spec [of abc "CHR ''A''" "CHR ''B''"]
  from n t have eq: "merge_replace_node abc (CHR ''A'') (CHR ''B'')
                     = (Inr (), merge_replace_node_spec abc (CHR ''A'') (CHR ''B''))"
    by blast
  from n t have nd: "nodes (snd (merge_replace_node abc (CHR ''A'') (CHR ''B'')))
                     = filter (\<lambda>v. v \<noteq> CHR ''A'') (nodes abc)"
    by blast
  from t have sc: "merge_replace_node abc (CHR ''A'') (CHR ''B'')
       = (Inr (),
          [(CHR ''B'', [weighted_edge (CHR ''B'') (CHR ''B'') 1,
                        weighted_edge (CHR ''B'') (CHR ''C'') 2,
                        weighted_edge (CHR ''B'') (CHR ''C'') 3]),
           (CHR ''C'', [])])"
    by blast
  from eq sc have "merge_replace_node_spec abc (CHR ''A'') (CHR ''B'')
       = [(CHR ''B'', [weighted_edge (CHR ''B'') (CHR ''B'') 1,
                       weighted_edge (CHR ''B'') (CHR ''C'') 2,
                       weighted_edge (CHR ''B'') (CHR ''C'') 3]),
          (CHR ''C'', [])]"
    by simp
  then show ?thesis
    using n nd k by (simp only: simp_thms)
qed

end
